theory Spec2Isabelle
  imports Complex_Main "HOL-Library.Product_Lexorder"
begin

section \<open>The weighted directed graph container\<close>

text \<open>
  A shallow embedding of \<^verbatim>\<open>weighted_directed_graph<T, A>\<close> (weighted_directed_graph.h) and of
  the two \<^verbatim>\<open>dijkstra\<close> functions of main.cpp.

  \<^item> \<^verbatim>\<open>std::size_t\<close> indices are natural numbers. The only arithmetic on them is
    \<^verbatim>\<open>decrement\<close>, which the code calls on indices that are strictly positive, so no
    wrap-around is reachable.
  \<^item> \<^verbatim>\<open>double\<close> weights and distances are real numbers, added and compared exactly. A
    \<^verbatim>\<open>double\<close> sum is rounded where the exact sum cannot be represented, so the model
    agrees with the code only where every weight and every sum the search forms is
    representable, as with the small integer weights of \<^verbatim>\<open>main\<close>; NaN and the infinities are
    outside the model. The theorems about the searches are about such graphs only.
  \<^item> \<^verbatim>\<open>std::set<X>\<close> is a HOL set; where the code iterates over one, the model goes
    through its elements in ascending order.
  \<^item> \<^verbatim>\<open>std::vector\<close> is a list; a vector iterator is the position it points at, and the
    end iterator is the length of the list.
  \<^item> A graph object is known by its address, a natural number, and a node holds in
    \<open>m_graph\<close> the address of the graph it was constructed for (the reference member
    \<^verbatim>\<open>m_graph\<close>). Graph objects are taken to be alive as long as a node names them.
  \<^item> The allocator and the placement of the value in allocated memory are not modelled:
    \<open>m_data\<close> is the value itself.
  \<^item> \<^verbatim>\<open>m_nodes[i]\<close> with \<open>i\<close> out of range has no defined behaviour in C++; a function
    that would perform such a read returns \<open>Inl UndefinedBehaviour\<close>.
  \<^item> The move assignment of a node assigns through \<^verbatim>\<open>m_graph\<close>; where that assigns one
    graph object to another, the function returns \<open>Inl AssignsOtherGraph\<close> (see
    \<open>vector_erase_range\<close>).
\<close>

subsection \<open>Edges, nodes, graphs\<close>

datatype graph_edge = graph_edge (index: nat) (weight: real)

definition decrement :: "graph_edge \<Rightarrow> graph_edge" where
  "decrement e = graph_edge (index e - 1) (weight e)"

record 'a weighted_graph_node =
  m_graph :: nat
  m_data :: 'a
  m_adjacentNodeIndices :: "graph_edge set"

record 'a weighted_directed_graph =
  this_graph :: nat
  m_nodes :: "'a weighted_graph_node list"

datatype fault = UndefinedBehaviour | AssignsOtherGraph

text \<open>The default constructor, for a graph object at a given address; \<open>empty_graph\<close> is
  the empty graph at address 0.\<close>

definition new_graph :: "nat \<Rightarrow> 'a weighted_directed_graph" where
  "new_graph address = \<lparr>this_graph = address, m_nodes = []\<rparr>"

definition empty_graph :: "'a weighted_directed_graph" where
  "empty_graph = new_graph 0"

definition size_graph :: "'a weighted_directed_graph \<Rightarrow> nat" where
  "size_graph g = length (m_nodes g)"

definition end_iter :: "'a weighted_directed_graph \<Rightarrow> nat" where
  "end_iter g = length (m_nodes g)"

definition begin_iter :: "'a weighted_directed_graph \<Rightarrow> nat" where
  "begin_iter g = 0"

text \<open>\<^verbatim>\<open>std::find_if\<close>: the position of the first element satisfying the predicate, the
  length of the list when there is none.\<close>

fun find_if :: "('a \<Rightarrow> bool) \<Rightarrow> 'a list \<Rightarrow> nat" where
  "find_if P [] = 0"
| "find_if P (x # xs) = (if P x then 0 else Suc (find_if P xs))"

definition findNode :: "'a weighted_directed_graph \<Rightarrow> 'a \<Rightarrow> nat" where
  "findNode g node_value = find_if (\<lambda>node. m_data node = node_value) (m_nodes g)"

subsection \<open>Inserting nodes and edges\<close>

definition insert_node ::
  "'a weighted_directed_graph \<Rightarrow> 'a \<Rightarrow> (nat \<times> bool) \<times> 'a weighted_directed_graph" where
  "insert_node g node_value =
     (let iter = findNode g node_value in
      if iter \<noteq> end_iter g then ((iter, False), g)
      else ((length (m_nodes g), True),
            g\<lparr>m_nodes := m_nodes g @
               [\<lparr>m_graph = this_graph g, m_data = node_value, m_adjacentNodeIndices = {}\<rparr>]\<rparr>))"

text \<open>\<^verbatim>\<open>insert(first, last)\<close> copies a range through an insert iterator: one
  \<^verbatim>\<open>insert\<close> per element, in order.\<close>

definition insert_range :: "'a weighted_directed_graph \<Rightarrow> 'a list \<Rightarrow> 'a weighted_directed_graph" where
  "insert_range g vs = fold (\<lambda>v h. snd (insert_node h v)) vs g"

definition insert_edge ::
  "'a weighted_directed_graph \<Rightarrow> 'a \<Rightarrow> 'a \<Rightarrow> real \<Rightarrow> bool \<times> 'a weighted_directed_graph" where
  "insert_edge g from_node_value to_node_value w =
     (let from = findNode g from_node_value; to = findNode g to_node_value in
      if from = end_iter g \<or> to = end_iter g then (False, g)
      else
        (let adj = m_adjacentNodeIndices (m_nodes g ! from) in
         (graph_edge to w \<notin> adj,
          g\<lparr>m_nodes := (m_nodes g)[from := (m_nodes g ! from)
               \<lparr>m_adjacentNodeIndices := insert (graph_edge to w) adj\<rparr>]\<rparr>)))"

subsection \<open>Erasing nodes and edges\<close>

text \<open>\<^verbatim>\<open>remove_all_links_to\<close>: in every node, \<^verbatim>\<open>std::erase_if\<close> drops the edges to
  \<open>node_index\<close>; the remaining edges are copied to a vector, those above \<open>node_index\<close> are
  decremented, and the set is rebuilt from the vector.\<close>

definition relink :: "nat \<Rightarrow> graph_edge set \<Rightarrow> graph_edge set" where
  "relink node_index adjacencyIndices =
     (\<lambda>e. if index e > node_index then decrement e else e) `
       Set.filter (\<lambda>e. \<not> index e = node_index) adjacencyIndices"

definition remove_all_links_to :: "'a weighted_directed_graph \<Rightarrow> nat \<Rightarrow> 'a weighted_directed_graph" where
  "remove_all_links_to g node_index =
     g\<lparr>m_nodes := map (\<lambda>node. node\<lparr>m_adjacentNodeIndices :=
                         relink node_index (m_adjacentNodeIndices node)\<rparr>) (m_nodes g)\<rparr>"

text \<open>
  \<^verbatim>\<open>std::vector::erase(first, last)\<close> on the vector of nodes: every node behind the range is
  move-assigned onto the position that lies \<open>last - first\<close> places before it, one assignment
  per node behind the range, and the nodes left over at the end are destroyed.

  The move assignment of a node, \<^verbatim>\<open>weighted_graph_node::operator=(weighted_graph_node&&)\<close>,
  begins with \<^verbatim>\<open>m_graph = rhs.m_graph\<close>. \<^verbatim>\<open>m_graph\<close> is a reference, so this assigns the
  graph that the target node names from the graph that the source node names, and the target
  goes on naming its graph. Where both nodes name one graph, this is a self-assignment of
  that graph and changes nothing; the target then takes over the adjacency set and the value
  of the source. Where they name two graphs, a whole graph is copy-assigned while the erase
  is running: the vector being erased is copied with a moved-from node in it (whose value
  pointer is null) or is overwritten, or a third graph is overwritten. The model of one
  graph ends there, with \<open>Inl AssignsOtherGraph\<close>.

  The targets are the positions from \<open>first\<close> on, as many as there are nodes from \<open>last\<close> on;
  the test compares the graphs they name, pair by pair. For an empty range there is no
  assignment.
\<close>

definition vector_erase_range ::
  "'a weighted_graph_node list \<Rightarrow> nat \<Rightarrow> nat \<Rightarrow> fault + 'a weighted_graph_node list" where
  "vector_erase_range xs first_pos last_pos =
     (if map m_graph (take (length xs - last_pos) (drop first_pos xs)) =
         map m_graph (drop last_pos xs)
      then Inr (take first_pos xs @ drop last_pos xs)
      else Inl AssignsOtherGraph)"

text \<open>\<^verbatim>\<open>std::vector::erase(pos)\<close>: the same with the range of the one position.\<close>

definition vector_erase ::
  "'a weighted_graph_node list \<Rightarrow> nat \<Rightarrow> fault + 'a weighted_graph_node list" where
  "vector_erase xs pos = vector_erase_range xs pos (Suc pos)"

definition erase_value ::
  "'a weighted_directed_graph \<Rightarrow> 'a \<Rightarrow> fault + bool \<times> 'a weighted_directed_graph" where
  "erase_value g node_value =
     (let iter = findNode g node_value in
      if iter = end_iter g then Inr (False, g)
      else (let g1 = remove_all_links_to g iter in
            case vector_erase (m_nodes g1) iter of
              Inl f \<Rightarrow> Inl f
            | Inr nodes \<Rightarrow> Inr (True, g1\<lparr>m_nodes := nodes\<rparr>)))"

definition erase_pos ::
  "'a weighted_directed_graph \<Rightarrow> nat \<Rightarrow> fault + nat \<times> 'a weighted_directed_graph" where
  "erase_pos g pos =
     (if pos = end_iter g then Inr (end_iter g, g)
      else (let g1 = remove_all_links_to g pos in
            case vector_erase (m_nodes g1) pos of
              Inl f \<Rightarrow> Inl f
            | Inr nodes \<Rightarrow> Inr (pos, g1\<lparr>m_nodes := nodes\<rparr>)))"

text \<open>The range overload runs \<^verbatim>\<open>remove_all_links_to\<close> for every iterator of the range while
  all nodes are still in the vector, and erases the whole range from the vector afterwards.\<close>

definition erase_range ::
  "'a weighted_directed_graph \<Rightarrow> nat \<Rightarrow> nat \<Rightarrow> fault + nat \<times> 'a weighted_directed_graph" where
  "erase_range g first_pos last_pos =
     (let g1 = fold (\<lambda>iter h. if iter \<noteq> end_iter h then remove_all_links_to h iter else h)
                    [first_pos..<last_pos] g in
      case vector_erase_range (m_nodes g1) first_pos last_pos of
        Inl f \<Rightarrow> Inl f
      | Inr nodes \<Rightarrow> Inr (first_pos, g1\<lparr>m_nodes := nodes\<rparr>))"

definition erase_edge ::
  "'a weighted_directed_graph \<Rightarrow> 'a \<Rightarrow> 'a \<Rightarrow> bool \<times> 'a weighted_directed_graph" where
  "erase_edge g from_node_value to_node_value =
     (let from = findNode g from_node_value; to = findNode g to_node_value in
      if from = end_iter g \<or> to = end_iter g then (False, g)
      else
        (True,
         g\<lparr>m_nodes := (m_nodes g)[from := (m_nodes g ! from)
              \<lparr>m_adjacentNodeIndices :=
                 Set.filter (\<lambda>e. \<not> index e = to) (m_adjacentNodeIndices (m_nodes g ! from))\<rparr>]\<rparr>))"

definition clear :: "'a weighted_directed_graph \<Rightarrow> 'a weighted_directed_graph" where
  "clear g = g\<lparr>m_nodes := []\<rparr>"

text \<open>\<^verbatim>\<open>swap\<close> exchanges the vectors of the two graph objects; the nodes go on naming the
  graph they were constructed for.\<close>

definition swap_graph ::
  "'a weighted_directed_graph \<Rightarrow> 'a weighted_directed_graph \<Rightarrow>
   'a weighted_directed_graph \<times> 'a weighted_directed_graph" where
  "swap_graph g other_graph = (g\<lparr>m_nodes := m_nodes other_graph\<rparr>, other_graph\<lparr>m_nodes := m_nodes g\<rparr>)"

subsection \<open>Value-level adjacency and equality\<close>

text \<open>The private overloads taking an adjacency set read \<^verbatim>\<open>m_nodes[edge.index()]\<close> without a
  bounds check.\<close>

definition get_adjacent_nodes_values_of ::
  "'a weighted_directed_graph \<Rightarrow> graph_edge set \<Rightarrow> fault + 'a set" where
  "get_adjacent_nodes_values_of g indices =
     (if \<forall>edge \<in> indices. index edge < length (m_nodes g)
      then Inr ((\<lambda>edge. m_data (m_nodes g ! index edge)) ` indices)
      else Inl UndefinedBehaviour)"

definition get_adjacent_nodes_values_and_weights_of ::
  "'a weighted_directed_graph \<Rightarrow> graph_edge set \<Rightarrow> fault + ('a \<times> real) set" where
  "get_adjacent_nodes_values_and_weights_of g indices =
     (if \<forall>edge \<in> indices. index edge < length (m_nodes g)
      then Inr ((\<lambda>edge. (m_data (m_nodes g ! index edge), weight edge)) ` indices)
      else Inl UndefinedBehaviour)"

definition get_adjacent_nodes_values :: "'a weighted_directed_graph \<Rightarrow> 'a \<Rightarrow> fault + 'a set" where
  "get_adjacent_nodes_values g node_value =
     (let iter = findNode g node_value in
      if iter = end_iter g then Inr {}
      else get_adjacent_nodes_values_of g (m_adjacentNodeIndices (m_nodes g ! iter)))"

definition get_adjacent_nodes_values_and_weights ::
  "'a weighted_directed_graph \<Rightarrow> 'a \<Rightarrow> fault + ('a \<times> real) set" where
  "get_adjacent_nodes_values_and_weights g node_value =
     (let iter = findNode g node_value in
      if iter = end_iter g then Inr {}
      else get_adjacent_nodes_values_and_weights_of g (m_adjacentNodeIndices (m_nodes g ! iter)))"

text \<open>\<^verbatim>\<open>operator==\<close>: the loop over the nodes of the left graph, leaving at the first node
  that is missing on the right or whose neighbour values differ.\<close>

fun equal_nodes ::
  "'a weighted_directed_graph \<Rightarrow> 'a weighted_directed_graph \<Rightarrow> 'a weighted_graph_node list \<Rightarrow>
   fault + bool" where
  "equal_nodes g rhs [] = Inr True"
| "equal_nodes g rhs (node # nodes) =
     (let rhsNodeIter = findNode rhs (m_data node) in
      if rhsNodeIter = end_iter rhs then Inr False
      else
        (case get_adjacent_nodes_values_of g (m_adjacentNodeIndices node) of
           Inl f \<Rightarrow> Inl f
         | Inr adjacent_values_lhs \<Rightarrow>
            (case get_adjacent_nodes_values_of rhs (m_adjacentNodeIndices (m_nodes rhs ! rhsNodeIter)) of
               Inl f \<Rightarrow> Inl f
             | Inr adjacent_values_rhs \<Rightarrow>
                 if adjacent_values_lhs \<noteq> adjacent_values_rhs then Inr False
                 else equal_nodes g rhs nodes)))"

definition graph_eq :: "'a weighted_directed_graph \<Rightarrow> 'a weighted_directed_graph \<Rightarrow> fault + bool" where
  "graph_eq g rhs =
     (if length (m_nodes g) \<noteq> length (m_nodes rhs) then Inr False
      else equal_nodes g rhs (m_nodes g))"

subsection \<open>Invariants of a graph\<close>

definition node_values :: "'a weighted_directed_graph \<Rightarrow> 'a list" where
  "node_values g = map m_data (m_nodes g)"

definition edges_in_range :: "'a weighted_directed_graph \<Rightarrow> bool" where
  "edges_in_range g =
     (\<forall>node \<in> set (m_nodes g). \<forall>e \<in> m_adjacentNodeIndices node. index e < length (m_nodes g))"

definition unique_values :: "'a weighted_directed_graph \<Rightarrow> bool" where
  "unique_values g = distinct (node_values g)"

text \<open>All nodes of the vector name the same graph: the case in which no move assignment
  assigns one graph to another.\<close>

definition names_one_graph :: "'a weighted_directed_graph \<Rightarrow> bool" where
  "names_one_graph g = (length (remdups (map m_graph (m_nodes g))) \<le> 1)"

text \<open>All nodes name the graph that holds them, as after any run of \<open>insert\<close>,
  \<open>insert_edge\<close>, \<open>erase\<close>, \<open>erase_edge\<close> and \<open>clear\<close> on a new graph.\<close>

definition names_this_graph :: "'a weighted_directed_graph \<Rightarrow> bool" where
  "names_this_graph g = list_all (\<lambda>node. m_graph node = this_graph g) (m_nodes g)"

text \<open>A graph written out: the graph object at an address whose nodes, all naming that
  graph, have the given values and adjacency sets.\<close>

definition graph_of :: "nat \<Rightarrow> ('a \<times> graph_edge set) list \<Rightarrow> 'a weighted_directed_graph" where
  "graph_of address nodes =
     \<lparr>this_graph = address,
      m_nodes = map (\<lambda>(v, adj). \<lparr>m_graph = address, m_data = v, m_adjacentNodeIndices = adj\<rparr>)
                    nodes\<rparr>"

subsection \<open>Building a graph from nodes and edges\<close>

text \<open>A client that inserts a list of nodes and then a list of weighted edges, as \<^verbatim>\<open>main\<close>
  does, one call per element.\<close>

definition insert_edges ::
  "'a weighted_directed_graph \<Rightarrow> ('a \<times> 'a \<times> real) list \<Rightarrow> 'a weighted_directed_graph" where
  "insert_edges g es = fold (\<lambda>(f, t, w) h. snd (insert_edge h f t w)) es g"

definition build :: "'a list \<Rightarrow> ('a \<times> 'a \<times> real) list \<Rightarrow> 'a weighted_directed_graph" where
  "build vs es = insert_edges (insert_range empty_graph vs) es"

text \<open>The neighbour values of a value, read off the graph without the bounds check: what
  \<open>get_adjacent_nodes_values\<close> returns when all targets are in range. It is used in proofs
  only.\<close>

definition neighbour_values :: "'a weighted_directed_graph \<Rightarrow> 'a \<Rightarrow> 'a set" where
  "neighbour_values g v =
     (if v \<in> set (node_values g)
      then (\<lambda>e. m_data (m_nodes g ! index e)) ` m_adjacentNodeIndices (m_nodes g ! findNode g v)
      else {})"

section \<open>Shortest paths (main.cpp)\<close>

text \<open>
  The state of the search loops. \<^verbatim>\<open>std::priority_queue\<close> with \<^verbatim>\<open>std::greater\<close> over
  pairs (distance, value) hands out a least pair first; pairs are totally ordered, so the
  queue is modelled as the ascending list of its elements: \<^verbatim>\<open>push\<close> inserts in order,
  \<^verbatim>\<open>top\<close> is the head and \<^verbatim>\<open>pop\<close> drops it. \<^verbatim>\<open>std::map\<close> is a partial function.
  The all-destinations search has no predecessor map and leaves \<open>previous\<close> empty.
  Output to \<^verbatim>\<open>std::cout\<close> and \<^verbatim>\<open>std::cerr\<close> is not modelled.

  A loop that does not finish has the value \<open>None\<close>.
\<close>

record 'a search_state =
  pq :: "(real \<times> 'a) list"
  distances :: "'a \<rightharpoonup> real"
  previous :: "'a \<rightharpoonup> 'a"
  visited :: "'a set"

definition initial_state :: "'a::linorder \<Rightarrow> 'a search_state" where
  "initial_state start_node =
     \<lparr>pq = insort (0, start_node) [], distances = [start_node \<mapsto> 0],
      previous = Map.empty, visited = {}\<rparr>"


definition relax_path ::
  "real \<Rightarrow> 'a::linorder \<Rightarrow> 'a \<times> real \<Rightarrow> 'a search_state \<Rightarrow> 'a search_state" where
  "relax_path cur_dist current_node neighbor st =
     (let neighbor_node = fst neighbor; edge_weight = snd neighbor;
          new_dist = cur_dist + edge_weight;
          improve = (case distances st neighbor_node of
                       None \<Rightarrow> True
                     | Some d \<Rightarrow> new_dist < d) in
      if improve
      then st\<lparr>distances := (distances st)(neighbor_node \<mapsto> new_dist),
              previous := (previous st)(neighbor_node \<mapsto> current_node),
              pq := insort (new_dist, neighbor_node) (pq st)\<rparr>
      else st)"



text \<open>\<^verbatim>\<open>dijkstra(graph, start_node, end_node)\<close>: the while loop leaves with \<^verbatim>\<open>break\<close> once
  the end node is taken from the queue.\<close>

partial_function (option) dijkstra_path_loop ::
  "'a::linorder weighted_directed_graph \<Rightarrow> 'a \<Rightarrow> 'a search_state \<Rightarrow>
   (fault + 'a search_state) option" where
  "dijkstra_path_loop graph end_node st =
     (case pq st of
        [] \<Rightarrow> Some (Inr st)
      | top_entry # rest \<Rightarrow>
          (let cur_dist = fst top_entry; current_node = snd top_entry; st1 = st\<lparr>pq := rest\<rparr> in
           if current_node \<in> visited st1 then dijkstra_path_loop graph end_node st1
           else
             (let st2 = st1\<lparr>visited := insert current_node (visited st1)\<rparr> in
              if current_node = end_node then Some (Inr st2)
              else
                (case get_adjacent_nodes_values_and_weights graph current_node of
                   Inl f \<Rightarrow> Some (Inl f)
                 | Inr neighbors \<Rightarrow>
                     dijkstra_path_loop graph end_node
                       (fold (relax_path cur_dist current_node) (sorted_list_of_set neighbors) st2)))))"

text \<open>The reconstruction loop. \<^verbatim>\<open>previous[current]\<close> on a key that is not in the map
  inserts the key with a value-initialised \<^verbatim>\<open>T\<close> and returns that; \<open>T0\<close> stands for this
  value (\<open>0\<close> for \<^verbatim>\<open>int\<close>).\<close>

partial_function (option) reconstruct ::
  "'a \<Rightarrow> 'a \<Rightarrow> ('a \<rightharpoonup> 'a) \<Rightarrow> 'a \<Rightarrow> 'a list \<Rightarrow> 'a list option" where
  "reconstruct T0 start_node prev current path =
     (if current \<noteq> start_node
      then (case prev current of
              None \<Rightarrow> reconstruct T0 start_node (prev(current \<mapsto> T0)) T0 (path @ [current])
            | Some p \<Rightarrow> reconstruct T0 start_node prev p (path @ [current]))
      else Some path)"

definition dijkstra_path ::
  "'a::linorder weighted_directed_graph \<Rightarrow> 'a \<Rightarrow> 'a \<Rightarrow> 'a \<Rightarrow> (fault + 'a list) option" where
  "dijkstra_path graph T0 start_node end_node =
     (if find_if (\<lambda>v. v = start_node) (node_values graph) = length (node_values graph)
      then Some (Inr [])
      else if find_if (\<lambda>v. v = end_node) (node_values graph) = length (node_values graph)
      then Some (Inr [])
      else
        (case dijkstra_path_loop graph end_node (initial_state start_node) of
           None \<Rightarrow> None
         | Some (Inl f) \<Rightarrow> Some (Inl f)
         | Some (Inr st) \<Rightarrow>
             (case reconstruct T0 start_node (previous st) end_node [] of
                None \<Rightarrow> None
              | Some path \<Rightarrow> Some (Inr (rev (path @ [start_node]))))))"

declare dijkstra_path_loop.simps [code]
declare reconstruct.simps [code]

text \<open>The graph that \<^verbatim>\<open>main\<close> builds, with \<^verbatim>\<open>T = int\<close>.\<close>

definition main_graph :: "int weighted_directed_graph" where
  "main_graph = build [11, 22, 33, 44, 55, 66, 77, 88]
     [(11, 22, 2), (11, 55, 1), (22, 33, 3), (22, 66, 1), (33, 44, 1), (44, 88, 9),
      (55, 66, 1), (55, 77, 3), (66, 77, 1), (77, 44, 1)]"

section \<open>Basic facts\<close>

lemma find_if_le: "find_if P xs \<le> length xs"
  by (induction xs) auto

lemma find_if_found: "find_if P xs < length xs \<Longrightarrow> P (xs ! find_if P xs)"
  by (induction xs) (auto split: if_splits)

lemma find_if_end_iff: "find_if P xs = length xs \<longleftrightarrow> (\<forall>x \<in> set xs. \<not> P x)"
  by (induction xs) auto

lemma find_if_append_hit: "find_if P xs \<noteq> length xs \<Longrightarrow> find_if P (xs @ ys) = find_if P xs"
  by (induction xs) auto

lemma find_if_append_miss:
  "find_if P xs = length xs \<Longrightarrow> find_if P (xs @ ys) = length xs + find_if P ys"
  by (induction xs) (auto split: if_splits)

lemma findNode_le: "findNode g v \<le> length (m_nodes g)"
  by (simp add: findNode_def find_if_le)

lemma findNode_end_iff: "findNode g v = end_iter g \<longleftrightarrow> v \<notin> set (node_values g)"
  by (auto simp: findNode_def end_iter_def node_values_def find_if_end_iff)

lemma findNode_value: "findNode g v \<noteq> end_iter g \<Longrightarrow> m_data (m_nodes g ! findNode g v) = v"
  using find_if_found [of "\<lambda>node. m_data node = v" "m_nodes g"] find_if_le [of "\<lambda>node. m_data node = v" "m_nodes g"]
  by (simp add: findNode_def end_iter_def)

lemma find_if_map: "find_if P (map f xs) = find_if (\<lambda>x. P (f x)) xs"
  by (induction xs) auto

lemma findNode_node_values: "findNode g v = find_if (\<lambda>x. x = v) (node_values g)"
  by (simp add: findNode_def node_values_def find_if_map)

lemma findNode_cong: "node_values g' = node_values g \<Longrightarrow> findNode g' v = findNode g v"
  by (simp add: findNode_node_values)

lemma end_iter_cong: "node_values g' = node_values g \<Longrightarrow> end_iter g' = end_iter g"
  by (metis end_iter_def length_map node_values_def)

lemma findNode_less: "v \<in> set (node_values g) \<Longrightarrow> findNode g v < length (m_nodes g)"
  using findNode_end_iff [of g v] findNode_le [of g v] by (simp add: end_iter_def)

subsection \<open>The reindexing pass\<close>

lemma relink_empty: "relink i {} = {}"
  by (simp add: relink_def)

lemma relink_insert:
  "relink i (insert e A) =
     (if index e = i then relink i A
      else insert (if index e > i then decrement e else e) (relink i A))"
  by (auto simp: relink_def)

lemma relink_iff:
  "e' \<in> relink i A \<longleftrightarrow>
     (\<exists>e \<in> A. index e \<noteq> i \<and>
        e' = graph_edge (if i < index e then index e - 1 else index e) (weight e))"
  by (auto simp: relink_def decrement_def)

lemma remove_all_links_to_length:
  "length (m_nodes (remove_all_links_to g i)) = length (m_nodes g)"
  by (simp add: remove_all_links_to_def)

lemma remove_all_links_to_nth:
  "j < length (m_nodes g) \<Longrightarrow>
     m_nodes (remove_all_links_to g i) ! j =
       (m_nodes g ! j)\<lparr>m_adjacentNodeIndices := relink i (m_adjacentNodeIndices (m_nodes g ! j))\<rparr>"
  by (simp add: remove_all_links_to_def)

lemma node_values_remove_all_links_to: "node_values (remove_all_links_to g i) = node_values g"
  by (simp add: node_values_def remove_all_links_to_def comp_def)

lemma remdups_le_1_const:
  "length (remdups xs) \<le> 1 \<Longrightarrow> x \<in> set xs \<Longrightarrow> y \<in> set xs \<Longrightarrow> x = y"
proof -
  assume l: "length (remdups xs) \<le> 1" and x: "x \<in> set xs" and y: "y \<in> set xs"
  have "card (set xs) \<le> 1"
    using l by (simp add: length_remdups_card_conv)
  moreover have "card {x, y} \<le> card (set xs)"
    using x y by (intro card_mono) simp_all
  ultimately have "card {x, y} \<le> 1" by simp
  then show "x = y" by (cases "x = y") simp_all
qed

lemma names_one_graph_nth:
  "names_one_graph g \<Longrightarrow> i < length (m_nodes g) \<Longrightarrow> j < length (m_nodes g) \<Longrightarrow>
     m_graph (m_nodes g ! i) = m_graph (m_nodes g ! j)"
proof -
  assume o: "names_one_graph g" and i: "i < length (m_nodes g)" and j: "j < length (m_nodes g)"
  from o have l: "length (remdups (map m_graph (m_nodes g))) \<le> 1"
    by (simp add: names_one_graph_def)
  from i have x: "m_graph (m_nodes g ! i) \<in> set (map m_graph (m_nodes g))"
    by (metis length_map nth_map nth_mem)
  from j have y: "m_graph (m_nodes g ! j) \<in> set (map m_graph (m_nodes g))"
    by (metis length_map nth_map nth_mem)
  from l x y show ?thesis by (rule remdups_le_1_const)
qed

lemma vector_erase_range_one_graph:
  assumes "\<And>i j. i < length xs \<Longrightarrow> j < length xs \<Longrightarrow> m_graph (xs ! i) = m_graph (xs ! j)"
    and "first_pos \<le> last_pos"
  shows "vector_erase_range xs first_pos last_pos = Inr (take first_pos xs @ drop last_pos xs)"
proof -
  have "map m_graph (take (length xs - last_pos) (drop first_pos xs)) =
        map m_graph (drop last_pos xs)"
  proof (rule nth_equalityI)
    show "length (map m_graph (take (length xs - last_pos) (drop first_pos xs))) =
          length (map m_graph (drop last_pos xs))"
      using assms(2) by simp
  next
    fix k
    assume "k < length (map m_graph (take (length xs - last_pos) (drop first_pos xs)))"
    then have k: "k < length xs - last_pos" by simp
    with assms(2) have "first_pos + k < length xs" "last_pos + k < length xs" by simp_all
    with k assms(1) [of "first_pos + k" "last_pos + k"]
    show "map m_graph (take (length xs - last_pos) (drop first_pos xs)) ! k =
          map m_graph (drop last_pos xs) ! k"
      by simp
  qed
  then show ?thesis by (simp add: vector_erase_range_def)
qed

lemma names_one_graph_remove_all_links_to:
  "names_one_graph (remove_all_links_to g i) = names_one_graph g"
  by (simp add: names_one_graph_def remove_all_links_to_def comp_def)

lemma vector_erase_one_graph:
  "names_one_graph g \<Longrightarrow>
     vector_erase (m_nodes (remove_all_links_to g i)) pos =
       Inr (take pos (m_nodes (remove_all_links_to g i)) @
            drop (Suc pos) (m_nodes (remove_all_links_to g i)))"
  unfolding vector_erase_def
  by (intro vector_erase_range_one_graph names_one_graph_nth)
     (simp_all add: names_one_graph_remove_all_links_to)

lemma erase_value_present:
  "v \<in> set (node_values g) \<Longrightarrow> names_one_graph g \<Longrightarrow>
     erase_value g v =
       Inr (True, (remove_all_links_to g (findNode g v))
                \<lparr>m_nodes := take (findNode g v) (m_nodes (remove_all_links_to g (findNode g v))) @
                   drop (Suc (findNode g v)) (m_nodes (remove_all_links_to g (findNode g v)))\<rparr>)"
  by (simp add: erase_value_def Let_def findNode_end_iff vector_erase_one_graph)

lemmas graph_defs =
  build_def insert_edges_def insert_range_def insert_node_def insert_edge_def empty_graph_def
  new_graph_def findNode_def end_iter_def erase_value_def erase_pos_def erase_range_def
  erase_edge_def remove_all_links_to_def vector_erase_def vector_erase_range_def
  get_adjacent_nodes_values_def get_adjacent_nodes_values_of_def decrement_def Let_def

lemma example_reindex:
  "distinct [a, b, c, d] \<Longrightarrow>
     erase_value (build [a, b, c, d] [(a, c, w1), (b, c, w2), (b, d, w3)]) b =
       Inr (True, graph_of 0 [(a, {graph_edge 1 w1}), (c, {}), (d, {})]) \<and>
     get_adjacent_nodes_values (graph_of 0 [(a, {graph_edge 1 w1}), (c, {}), (d, {})]) a = Inr {c}"
  by (simp add: graph_defs graph_of_def relink_empty relink_insert)

subsection \<open>Nodes that name the graph holding them\<close>

lemma names_this_graph_one: "names_this_graph g \<Longrightarrow> names_one_graph g"
proof -
  assume "names_this_graph g"
  then have "set (map m_graph (m_nodes g)) \<subseteq> {this_graph g}"
    by (auto simp: names_this_graph_def list_all_iff)
  then have "card (set (map m_graph (m_nodes g))) \<le> card {this_graph g}"
    by (intro card_mono) simp_all
  then show ?thesis
    by (simp add: names_one_graph_def length_remdups_card_conv)
qed

lemma names_this_graph_new_graph: "names_this_graph (new_graph a)"
  by (simp add: names_this_graph_def new_graph_def)

lemma names_this_graph_insert_node:
  "names_this_graph g \<Longrightarrow> names_this_graph (snd (insert_node g v))"
  by (simp add: names_this_graph_def insert_node_def Let_def)

lemma names_this_graph_insert_range:
  "names_this_graph g \<Longrightarrow> names_this_graph (insert_range g vs)"
proof (induction vs arbitrary: g)
  case Nil
  then show ?case by (simp add: insert_range_def)
next
  case (Cons a vs)
  have "insert_range g (a # vs) = insert_range (snd (insert_node g a)) vs"
    by (simp add: insert_range_def)
  with Cons.IH [OF names_this_graph_insert_node [OF Cons.prems]] show ?case by simp
qed

lemma names_this_graph_insert_edge:
  "names_this_graph g \<Longrightarrow> names_this_graph (snd (insert_edge g f t w))"
proof -
  assume o: "names_this_graph g"
  show ?thesis
  proof (cases "findNode g f = end_iter g \<or> findNode g t = end_iter g")
    case True
    with o show ?thesis by (auto simp: insert_edge_def Let_def)
  next
    case False
    then have i: "findNode g f < length (m_nodes g)"
      using findNode_le [of g f] by (simp add: end_iter_def)
    have "m_graph n = this_graph g"
      if "n \<in> set ((m_nodes g)[findNode g f := (m_nodes g ! findNode g f)
               \<lparr>m_adjacentNodeIndices := insert (graph_edge (findNode g t) w)
                  (m_adjacentNodeIndices (m_nodes g ! findNode g f))\<rparr>])" for n
    proof -
      from that have "n \<in> insert ((m_nodes g ! findNode g f)
               \<lparr>m_adjacentNodeIndices := insert (graph_edge (findNode g t) w)
                  (m_adjacentNodeIndices (m_nodes g ! findNode g f))\<rparr>) (set (m_nodes g))"
        using set_update_subset_insert by fastforce
      with o i show ?thesis
        by (auto simp: names_this_graph_def list_all_iff)
    qed
    with False show ?thesis
      by (simp add: insert_edge_def Let_def names_this_graph_def list_all_iff)
  qed
qed

lemma names_this_graph_insert_edges:
  "names_this_graph g \<Longrightarrow> names_this_graph (insert_edges g es)"
proof (induction es arbitrary: g)
  case Nil
  then show ?case by (simp add: insert_edges_def)
next
  case (Cons e es)
  obtain f t w where e: "e = (f, t, w)" by (cases e)
  have "insert_edges g (e # es) = insert_edges (snd (insert_edge g f t w)) es"
    by (simp add: insert_edges_def e)
  with Cons.IH [OF names_this_graph_insert_edge [OF Cons.prems]] show ?case by simp
qed

lemma names_this_graph_build: "names_this_graph (build vs es)"
  unfolding build_def empty_graph_def
  by (intro names_this_graph_insert_edges names_this_graph_insert_range names_this_graph_new_graph)

section \<open>Erasing a node by value\<close>

text \<open>
  On a graph whose nodes all name one graph, erasing a stored value returns true, and the
  result is the vector of \<open>remove_all_links_to\<close> without the position of the value. In the
  graph that \<open>remove_all_links_to\<close> hands over, every other node keeps its value and has as
  edges exactly the images of its old edges that did not point at the erased position, an
  edge above that position having its target decremented by one and its weight kept.
\<close>

lemma erase_value_reindex:
  assumes v: "v \<in> set (node_values g)" and o: "names_one_graph g"
  shows "\<exists>g'. erase_value g v = Inr (True, g') \<and>
      m_nodes g' =
        take (findNode g v) (m_nodes (remove_all_links_to g (findNode g v))) @
        drop (Suc (findNode g v)) (m_nodes (remove_all_links_to g (findNode g v)))"
    and "length (m_nodes (remove_all_links_to g (findNode g v))) = length (m_nodes g)"
    and "\<forall>j < length (m_nodes g). j \<noteq> findNode g v \<longrightarrow>
         m_data (m_nodes (remove_all_links_to g (findNode g v)) ! j) = m_data (m_nodes g ! j) \<and>
         (\<forall>e'. e' \<in> m_adjacentNodeIndices (m_nodes (remove_all_links_to g (findNode g v)) ! j) \<longleftrightarrow>
            (\<exists>e \<in> m_adjacentNodeIndices (m_nodes g ! j). index e \<noteq> findNode g v \<and>
               e' = graph_edge (if findNode g v < index e then index e - 1 else index e)
                               (weight e)))"
proof -
  show "\<exists>g'. erase_value g v = Inr (True, g') \<and>
      m_nodes g' =
        take (findNode g v) (m_nodes (remove_all_links_to g (findNode g v))) @
        drop (Suc (findNode g v)) (m_nodes (remove_all_links_to g (findNode g v)))"
    by (simp add: erase_value_present [OF v o])
  show "length (m_nodes (remove_all_links_to g (findNode g v))) = length (m_nodes g)"
    by (rule remove_all_links_to_length)
  show "\<forall>j < length (m_nodes g). j \<noteq> findNode g v \<longrightarrow>
         m_data (m_nodes (remove_all_links_to g (findNode g v)) ! j) = m_data (m_nodes g ! j) \<and>
         (\<forall>e'. e' \<in> m_adjacentNodeIndices (m_nodes (remove_all_links_to g (findNode g v)) ! j) \<longleftrightarrow>
            (\<exists>e \<in> m_adjacentNodeIndices (m_nodes g ! j). index e \<noteq> findNode g v \<and>
               e' = graph_edge (if findNode g v < index e then index e - 1 else index e)
                               (weight e)))"
    by (simp add: remove_all_links_to_nth relink_iff)
qed

text \<open>
  C1. The specification asks that erasing a stored value returns true for every graph. Take
  two graph objects, at addresses 1 and 2: insert 1 and 2 into the second, swap the two, and
  insert 9 into the first. Its nodes now name the graphs 2, 2 and 1, and 1 is a stored
  value. Erasing 1 move-assigns the node of 9 onto the node of 2, which assigns graph 1 to
  graph 2 in the middle of the erase: the call does not return true. Without the swap, with
  the three values inserted into one graph, the same call returns true and leaves the nodes
  2 and 9.
\<close>

theorem erase_value_after_swap:
  "map m_graph (m_nodes (snd (insert_node
      (fst (swap_graph (new_graph 1) (insert_range (new_graph 2) [1, 2::int]))) 9))) = [2, 2, 1] \<and>
   node_values (snd (insert_node
      (fst (swap_graph (new_graph 1) (insert_range (new_graph 2) [1, 2::int]))) 9)) = [1, 2, 9] \<and>
   erase_value (snd (insert_node
      (fst (swap_graph (new_graph 1) (insert_range (new_graph 2) [1, 2::int]))) 9)) 1 =
     Inl AssignsOtherGraph \<and>
   erase_value (insert_range (new_graph 1) [1, 2, 9::int]) 1 =
     Inr (True, graph_of 1 [(2, {}), (9, {})])"
  by code_simp

section \<open>Erasing an edge\<close>

text \<open>
  C5. \<open>erase_edge\<close> returns false and leaves the graph as it is when one of the two values is
  not a node. When both are nodes it returns true, and the node of \<open>from\<close> keeps exactly the
  edges whose target is not the position of \<open>to\<close>, whatever their weight; a second call with
  the same arguments returns true again and changes nothing.
\<close>

theorem erase_edge_contract:
  "(f \<notin> set (node_values g) \<or> t \<notin> set (node_values g) \<longrightarrow> erase_edge g f t = (False, g)) \<and>
   (f \<in> set (node_values g) \<and> t \<in> set (node_values g) \<longrightarrow>
      fst (erase_edge g f t) = True \<and>
      m_nodes (snd (erase_edge g f t)) =
        (m_nodes g)[findNode g f := (m_nodes g ! findNode g f)
           \<lparr>m_adjacentNodeIndices :=
              {e \<in> m_adjacentNodeIndices (m_nodes g ! findNode g f). index e \<noteq> findNode g t}\<rparr>] \<and>
      erase_edge (snd (erase_edge g f t)) f t = (True, snd (erase_edge g f t)))"
proof (intro conjI impI)
  assume "f \<notin> set (node_values g) \<or> t \<notin> set (node_values g)"
  then show "erase_edge g f t = (False, g)"
    by (auto simp: erase_edge_def Let_def findNode_end_iff)
next
  assume ft: "f \<in> set (node_values g) \<and> t \<in> set (node_values g)"
  let ?g' = "snd (erase_edge g f t)"
  have e: "erase_edge g f t = (True, g\<lparr>m_nodes := (m_nodes g)[findNode g f := (m_nodes g ! findNode g f)
           \<lparr>m_adjacentNodeIndices :=
              {e \<in> m_adjacentNodeIndices (m_nodes g ! findNode g f). index e \<noteq> findNode g t}\<rparr>]\<rparr>)"
    using ft by (simp add: erase_edge_def Let_def findNode_end_iff)
  show "fst (erase_edge g f t) = True" by (simp add: e)
  show "m_nodes ?g' = (m_nodes g)[findNode g f := (m_nodes g ! findNode g f)
           \<lparr>m_adjacentNodeIndices :=
              {e \<in> m_adjacentNodeIndices (m_nodes g ! findNode g f). index e \<noteq> findNode g t}\<rparr>]"
    by (simp add: e)
  have nv: "node_values ?g' = node_values g"
    using findNode_less [of f g] ft
    by (simp add: e node_values_def map_update findNode_value findNode_end_iff list_update_same_conv)
  have "erase_edge ?g' f t = (True, ?g')"
    using ft findNode_less [of f g]
    by (simp add: erase_edge_def [of ?g'] Let_def findNode_cong [OF nv] end_iter_cong [OF nv]
        findNode_end_iff) (simp add: e)
  then show "erase_edge ?g' f t = (True, ?g')" .
qed

theorem erase_edge_contract_witness:
  "((1::nat) \<in> set (node_values (build [1, 2] [(1, 2, 3), (1, 2, 4)])) \<and>
    (2::nat) \<in> set (node_values (build [1, 2] [(1, 2, 3), (1, 2, 4)]))) \<and>
   (9::nat) \<notin> set (node_values (build [1, 2] [(1, 2, 3), (1, 2, 4)])) \<and>
   erase_edge (build [1, 2::nat] [(1, 2, 3), (1, 2, 4)]) 1 9 =
     (False, build [1, 2] [(1, 2, 3), (1, 2, 4)]) \<and>
   fst (erase_edge (build [1, 2::nat] [(1, 2, 3), (1, 2, 4)]) 1 2) = True \<and>
   m_adjacentNodeIndices (m_nodes (snd (erase_edge (build [1, 2::nat] [(1, 2, 3), (1, 2, 4)]) 1 2)) ! 0) = {} \<and>
   fst (erase_edge (snd (erase_edge (build [1, 2::nat] [(1, 2, 3), (1, 2, 4)]) 1 2)) 1 2) = True"
proof -
  let ?g = "build [1, 2::nat] [(1, 2, 3), (1, 2, 4)]"
  have h1: "(1::nat) \<in> set (node_values ?g) \<and> (2::nat) \<in> set (node_values ?g)"
    by code_simp
  have h2: "(9::nat) \<notin> set (node_values ?g)"
    by code_simp
  have adj: "m_adjacentNodeIndices (m_nodes (snd (erase_edge ?g 1 2)) ! 0) = {}"
    by code_simp
  from erase_edge_contract [of 1 ?g 9] h2 have a: "erase_edge ?g 1 9 = (False, ?g)"
    by blast
  from erase_edge_contract [of 1 ?g 2] h1 have
    b: "fst (erase_edge ?g 1 2) = True"
    and c: "erase_edge (snd (erase_edge ?g 1 2)) 1 2 = (True, snd (erase_edge ?g 1 2))"
    by blast+
  from c have c': "fst (erase_edge (snd (erase_edge ?g 1 2)) 1 2) = True"
    by simp
  show ?thesis
    using h1 h2 a b adj c' by blast
qed

section \<open>Inserting a value twice\<close>

lemma findNode_insert_node:
  "findNode (snd (insert_node g v)) v \<noteq> end_iter (snd (insert_node g v))"
  by (auto simp: insert_node_def Let_def findNode_end_iff node_values_def)

text \<open>
  C8. After \<open>insert v\<close>, a second \<open>insert v\<close> reports that nothing was inserted, returns the
  graph it was given, and so leaves the size as it was after the first call.
\<close>

theorem insert_twice:
  "insert_node (snd (insert_node g v)) v =
     ((findNode (snd (insert_node g v)) v, False), snd (insert_node g v)) \<and>
   size_graph (snd (insert_node (snd (insert_node g v)) v)) = size_graph (snd (insert_node g v))"
  using findNode_insert_node [of g v]
  by (simp add: insert_node_def [of "snd (insert_node g v)"] Let_def)

section \<open>Erasing the end iterator and an empty range\<close>

text \<open>
  C9, as the specification states it: erasing an empty range \<open>[it, it)\<close> returns the end
  iterator. In a graph with one node, erasing the empty range at position 0 returns
  position 0 and the graph as it was; the end iterator is position 1.
\<close>

theorem erase_empty_range_counterexample:
  "erase_range (snd (insert_node empty_graph (1::nat))) 0 0 =
     Inr (0, snd (insert_node empty_graph (1::nat))) \<and>
   end_iter (snd (insert_node empty_graph (1::nat))) = 1"
  by (simp add: erase_range_def vector_erase_range_def insert_node_def empty_graph_def
      new_graph_def findNode_def end_iter_def)

text \<open>
  C9, amended. Erasing the end iterator leaves the graph unchanged and returns the end
  iterator; erasing an empty range \<open>[it, it)\<close> leaves the graph unchanged and returns \<open>it\<close>.
\<close>

theorem erase_noop:
  "erase_pos g (end_iter g) = Inr (end_iter g, g) \<and> erase_range g it it = Inr (it, g)"
  by (simp add: erase_pos_def erase_range_def vector_erase_range_def)

section \<open>Erasing a range\<close>

text \<open>
  C2. The specification asks that every edge of a graph reached through the public operations
  has a target below the number of nodes. The range overload of \<open>erase\<close> breaks this: in the
  graph with nodes \<open>[1, 2, 3]\<close> and the edge \<open>1 \<rightarrow> 3\<close>, all targets are in range, and
  erasing the range of positions \<open>[1, 3)\<close> returns the graph whose only node keeps an edge
  to position 1.
\<close>

theorem erase_range_breaks_range:
  "edges_in_range (build [1, 2, 3::nat] [(1, 3, 1)]) \<and>
   erase_range (build [1, 2, 3::nat] [(1, 3, 1)]) 1 3 =
     Inr (1, graph_of 0 [(1, {graph_edge 1 1})]) \<and>
   \<not> edges_in_range (graph_of 0 [(1::nat, {graph_edge 1 1})])"
  by code_simp

theorem erase_range_breaks_range_witness:
  "length (m_nodes (graph_of 0 [(1::nat, {graph_edge 1 1})])) = 1 \<and>
   graph_edge 1 1 \<in> m_adjacentNodeIndices (m_nodes (graph_of 0 [(1::nat, {graph_edge 1 1})]) ! 0) \<and>
   erase_range (build [1, 2, 3::nat] [(1, 3, 1)]) 1 3 =
     Inr (1, graph_of 0 [(1, {graph_edge 1 1})]) \<and>
   \<not> edges_in_range (graph_of 0 [(1::nat, {graph_edge 1 1})])"
proof -
  have "length (m_nodes (graph_of 0 [(1::nat, {graph_edge 1 1})])) = 1"
    by code_simp
  moreover have "graph_edge 1 1 \<in>
     m_adjacentNodeIndices (m_nodes (graph_of 0 [(1::nat, {graph_edge 1 1})]) ! 0)"
    by code_simp
  ultimately show ?thesis
    using erase_range_breaks_range by blast
qed

text \<open>
  C3. The specification asks that erasing a range equals erasing its nodes one at a time. In
  the graph with nodes \<open>[1, 2, 3, 4]\<close> and the edge \<open>1 \<rightarrow> 3\<close>, erasing the range of positions
  \<open>[1, 3)\<close> returns the graph with the nodes 1 and 4 and an edge from 1 to position 1, so
  node 1 has the neighbour 4. Erasing position 1 twice returns the graph with the nodes 1
  and 4 and no edge; so does erasing position 2 and then position 1, and so does erasing
  the values 2 and 3.
\<close>

theorem erase_range_differs:
  "erase_range (build [1, 2, 3, 4::nat] [(1, 3, 1)]) 1 3 =
     Inr (1, graph_of 0 [(1, {graph_edge 1 1}), (4, {})]) \<and>
   get_adjacent_nodes_values (graph_of 0 [(1::nat, {graph_edge 1 1}), (4, {})]) 1 = Inr {4} \<and>
   erase_pos (build [1, 2, 3, 4::nat] [(1, 3, 1)]) 1 =
     Inr (1, graph_of 0 [(1, {graph_edge 1 1}), (3, {}), (4, {})]) \<and>
   erase_pos (graph_of 0 [(1::nat, {graph_edge 1 1}), (3, {}), (4, {})]) 1 =
     Inr (1, graph_of 0 [(1, {}), (4, {})]) \<and>
   get_adjacent_nodes_values (graph_of 0 [(1::nat, {}), (4, {})]) 1 = Inr {} \<and>
   graph_of 0 [(1::nat, {graph_edge 1 1}), (4, {})] \<noteq> graph_of 0 [(1, {}), (4, {})] \<and>
   erase_pos (build [1, 2, 3, 4::nat] [(1, 3, 1)]) 2 =
     Inr (2, graph_of 0 [(1, {}), (2, {}), (4, {})]) \<and>
   erase_pos (graph_of 0 [(1::nat, {}), (2, {}), (4, {})]) 1 =
     Inr (1, graph_of 0 [(1, {}), (4, {})]) \<and>
   erase_value (build [1, 2, 3, 4::nat] [(1, 3, 1)]) 2 =
     Inr (True, graph_of 0 [(1, {graph_edge 1 1}), (3, {}), (4, {})]) \<and>
   erase_value (graph_of 0 [(1::nat, {graph_edge 1 1}), (3, {}), (4, {})]) 3 =
     Inr (True, graph_of 0 [(1, {}), (4, {})])"
  by code_simp

section \<open>Shortest paths in the graph of main\<close>


subsection \<open>The reconstruction loop when the end node was not reached\<close>

lemma reconstruct_Some:
  assumes "reconstruct T0 s prev cur path = Some r"
  shows "\<not> (T0 \<noteq> s \<and> cur \<noteq> s \<and> (prev T0 = None \<or> prev T0 = Some T0) \<and>
            (prev cur = None \<or> cur = T0))"
proof (rule reconstruct.raw_induct
    [where P = "\<lambda>T0 s prev cur path r.
       \<not> (T0 \<noteq> s \<and> cur \<noteq> s \<and> (prev T0 = None \<or> prev T0 = Some T0) \<and>
          (prev cur = None \<or> cur = T0))",
     OF _ assms])
  fix rc :: "'a \<Rightarrow> 'a \<Rightarrow> ('a \<rightharpoonup> 'a) \<Rightarrow> 'a \<Rightarrow> 'a list \<Rightarrow> 'a list option"
    and T0 s :: 'a and prev :: "'a \<rightharpoonup> 'a" and cur :: 'a and path r :: "'a list"
  assume IH: "\<And>T0 s prev cur path r. rc T0 s prev cur path = Some r \<Longrightarrow>
     \<not> (T0 \<noteq> s \<and> cur \<noteq> s \<and> (prev T0 = None \<or> prev T0 = Some T0) \<and>
        (prev cur = None \<or> cur = T0))"
  assume step: "(if cur \<noteq> s
      then case prev cur of
           None \<Rightarrow> rc T0 s (prev(cur \<mapsto> T0)) T0 (path @ [cur])
           | Some p \<Rightarrow> rc T0 s prev p (path @ [cur])
      else Some path) = Some r"
  show "\<not> (T0 \<noteq> s \<and> cur \<noteq> s \<and> (prev T0 = None \<or> prev T0 = Some T0) \<and>
           (prev cur = None \<or> cur = T0))"
  proof
    assume inv: "T0 \<noteq> s \<and> cur \<noteq> s \<and> (prev T0 = None \<or> prev T0 = Some T0) \<and>
                 (prev cur = None \<or> cur = T0)"
    show False
    proof (cases "prev cur")
      case None
      with step inv have "rc T0 s (prev(cur \<mapsto> T0)) T0 (path @ [cur]) = Some r"
        by simp
      from IH [OF this] inv show False by (auto split: if_splits)
    next
      case (Some p)
      with inv have p: "p = T0" "cur = T0" by auto
      with step inv Some have "rc T0 s prev T0 (path @ [cur]) = Some r"
        by simp
      from IH [OF this] inv show False by auto
    qed
  qed
qed

lemma reconstruct_diverges:
  "T0 \<noteq> s \<Longrightarrow> cur \<noteq> s \<Longrightarrow> prev T0 = None \<Longrightarrow> prev cur = None \<Longrightarrow>
     reconstruct T0 s prev cur path = None"
  using reconstruct_Some [of T0 s prev cur path] by (cases "reconstruct T0 s prev cur path") auto

lemma search_44_11:
  "(case dijkstra_path_loop main_graph 11 (initial_state 44) of
      Some (Inr st) \<Rightarrow> previous st 0 = None \<and> previous st 11 = None
    | _ \<Rightarrow> False)"
  by code_simp

text \<open>
  C7. The specification asks that the target-directed \<open>dijkstra\<close> returns, with an empty path
  when the end node cannot be reached. In the graph of \<open>main\<close>, 44 and 11 are nodes, all
  weights are positive and no path leads from 44 to 11: the search loop ends, and the
  reconstruction loop never does.
\<close>

theorem dijkstra_path_unreachable:
  "44 \<in> set (node_values main_graph) \<and> 11 \<in> set (node_values main_graph) \<and>
   dijkstra_path main_graph 0 44 11 = None"
proof -
  obtain st where st: "dijkstra_path_loop main_graph 11 (initial_state 44) = Some (Inr st)"
    and p: "previous st 0 = None" "previous st 11 = None"
    using search_44_11 by (auto split: option.splits sum.splits)
  have r: "reconstruct 0 44 (previous st) 11 [] = None"
    using p by (intro reconstruct_diverges) simp_all
  have m: "find_if (\<lambda>v. v = 44) (node_values main_graph) \<noteq> length (node_values main_graph)"
    "find_if (\<lambda>v. v = 11) (node_values main_graph) \<noteq> length (node_values main_graph)"
    by code_simp+
  have n: "44 \<in> set (node_values main_graph)" "11 \<in> set (node_values main_graph)"
    by code_simp+
  show ?thesis
    using m n by (simp add: dijkstra_path_def st r)
qed

section \<open>Graph equality\<close>

subsection \<open>Equality in terms of values\<close>

lemma nth_findNode_mem: "v \<in> set (node_values g) \<Longrightarrow> m_nodes g ! findNode g v \<in> set (m_nodes g)"
  by (simp add: findNode_less)

lemma get_adjacent_nodes_values_of_in_range:
  "edges_in_range g \<Longrightarrow> node \<in> set (m_nodes g) \<Longrightarrow>
     get_adjacent_nodes_values_of g (m_adjacentNodeIndices node) =
       Inr ((\<lambda>e. m_data (m_nodes g ! index e)) ` m_adjacentNodeIndices node)"
  by (simp add: get_adjacent_nodes_values_of_def edges_in_range_def)

lemma get_adjacent_nodes_values_in_range:
  "edges_in_range g \<Longrightarrow> get_adjacent_nodes_values g v = Inr (neighbour_values g v)"
  by (simp add: get_adjacent_nodes_values_def Let_def findNode_end_iff neighbour_values_def
      get_adjacent_nodes_values_of_in_range nth_findNode_mem)

lemma equal_nodes_char:
  "edges_in_range g \<Longrightarrow> edges_in_range rhs \<Longrightarrow> set ns \<subseteq> set (m_nodes g) \<Longrightarrow>
     equal_nodes g rhs ns =
       Inr (\<forall>n \<in> set ns. m_data n \<in> set (node_values rhs) \<and>
              (\<lambda>e. m_data (m_nodes g ! index e)) ` m_adjacentNodeIndices n =
              (\<lambda>e. m_data (m_nodes rhs ! index e)) `
                 m_adjacentNodeIndices (m_nodes rhs ! findNode rhs (m_data n)))"
proof (induction ns)
  case Nil
  then show ?case by simp
next
  case (Cons n ns)
  show ?case
  proof (cases "m_data n \<in> set (node_values rhs)")
    case False
    then show ?thesis by (simp add: Let_def findNode_end_iff)
  next
    case True
    from Cons.prems have n: "n \<in> set (m_nodes g)" and ns: "set ns \<subseteq> set (m_nodes g)"
      by auto
    show ?thesis
      using True Cons.IH [OF Cons.prems(1,2) ns]
      by (simp add: Let_def findNode_end_iff
          get_adjacent_nodes_values_of_in_range [OF Cons.prems(1) n]
          get_adjacent_nodes_values_of_in_range [OF Cons.prems(2) nth_findNode_mem [OF True]])
  qed
qed

lemma find_if_distinct: "distinct xs \<Longrightarrow> i < length xs \<Longrightarrow> find_if (\<lambda>x. x = xs ! i) xs = i"
proof (induction xs arbitrary: i)
  case Nil
  then show ?case by simp
next
  case (Cons a xs)
  then show ?case by (cases i) auto
qed

lemma findNode_nth:
  "unique_values g \<Longrightarrow> i < length (m_nodes g) \<Longrightarrow> findNode g (m_data (m_nodes g ! i)) = i"
  using find_if_distinct [of "node_values g" i]
  by (simp add: findNode_node_values unique_values_def node_values_def)

lemma graph_eq_char:
  assumes u: "unique_values g" "unique_values rhs"
    and r: "edges_in_range g" "edges_in_range rhs"
  shows "graph_eq g rhs =
     Inr (set (node_values g) = set (node_values rhs) \<and>
          (\<forall>v \<in> set (node_values g).
             get_adjacent_nodes_values g v = get_adjacent_nodes_values rhs v))"
proof -
  let ?img = "\<lambda>h n. (\<lambda>e. m_data (m_nodes h ! index e)) ` m_adjacentNodeIndices n"
  let ?P = "\<lambda>n. m_data n \<in> set (node_values rhs) \<and>
              ?img g n = ?img rhs (m_nodes rhs ! findNode rhs (m_data n))"
  have len: "length (m_nodes g) = card (set (node_values g))"
    "length (m_nodes rhs) = card (set (node_values rhs))"
    using u distinct_card [of "node_values g"] distinct_card [of "node_values rhs"]
      length_map [of m_data "m_nodes g"] length_map [of m_data "m_nodes rhs"]
    unfolding unique_values_def node_values_def by presburger+
  have eq: "graph_eq g rhs =
      Inr (length (m_nodes g) = length (m_nodes rhs) \<and> (\<forall>n \<in> set (m_nodes g). ?P n))"
    by (simp add: graph_eq_def equal_nodes_char [OF r order_refl])
  have "(length (m_nodes g) = length (m_nodes rhs) \<and> (\<forall>n \<in> set (m_nodes g). ?P n)) \<longleftrightarrow>
        (set (node_values g) = set (node_values rhs) \<and>
          (\<forall>v \<in> set (node_values g).
             get_adjacent_nodes_values g v = get_adjacent_nodes_values rhs v))"
    (is "?L \<longleftrightarrow> ?R")
  proof
    assume L: ?L
    then have sub: "set (node_values g) \<subseteq> set (node_values rhs)"
      by (auto simp: node_values_def)
    have "card (set (node_values g)) = card (set (node_values rhs))"
      using L len by simp
    with sub have vs: "set (node_values g) = set (node_values rhs)"
      by (simp add: card_subset_eq)
    have "get_adjacent_nodes_values g v = get_adjacent_nodes_values rhs v"
      if v: "v \<in> set (node_values g)" for v
    proof -
      have "m_nodes g ! findNode g v \<in> set (m_nodes g)"
        by (rule nth_findNode_mem [OF v])
      with L have "?P (m_nodes g ! findNode g v)" by blast
      moreover have "m_data (m_nodes g ! findNode g v) = v"
        using v by (simp add: findNode_value findNode_end_iff)
      ultimately show ?thesis
        using v vs by (simp add: get_adjacent_nodes_values_in_range r neighbour_values_def)
    qed
    with vs show ?R by blast
  next
    assume R: ?R
    then have l: "length (m_nodes g) = length (m_nodes rhs)"
      using len by simp
    have "?P n" if n: "n \<in> set (m_nodes g)" for n
    proof -
      from n obtain i where i: "i < length (m_nodes g)" "n = m_nodes g ! i"
        by (auto simp: in_set_conv_nth)
      have v: "m_data n \<in> set (node_values g)"
        using n by (simp add: node_values_def)
      have f: "findNode g (m_data n) = i"
        using findNode_nth [OF u(1) i(1)] i(2) by simp
      from R v have "get_adjacent_nodes_values g (m_data n) = get_adjacent_nodes_values rhs (m_data n)"
        by blast
      then show ?thesis
        using v R f i by (simp add: get_adjacent_nodes_values_in_range r neighbour_values_def)
    qed
    with l show ?L by blast
  qed
  with eq show ?thesis by simp
qed


lemma insert_edge_absent:
  "f \<notin> set (node_values g) \<or> t \<notin> set (node_values g) \<Longrightarrow> insert_edge g f t w = (False, g)"
  by (auto simp: insert_edge_def Let_def findNode_end_iff)

lemma insert_edge_present:
  "f \<in> set (node_values g) \<Longrightarrow> t \<in> set (node_values g) \<Longrightarrow>
     insert_edge g f t w =
       (graph_edge (findNode g t) w \<notin> m_adjacentNodeIndices (m_nodes g ! findNode g f),
        g\<lparr>m_nodes := (m_nodes g)[findNode g f := (m_nodes g ! findNode g f)
             \<lparr>m_adjacentNodeIndices :=
                insert (graph_edge (findNode g t) w)
                  (m_adjacentNodeIndices (m_nodes g ! findNode g f))\<rparr>]\<rparr>)"
  by (simp add: insert_edge_def Let_def findNode_end_iff)

lemma node_values_insert_edge: "node_values (snd (insert_edge g f t w)) = node_values g"
proof (cases "f \<in> set (node_values g) \<and> t \<in> set (node_values g)")
  case True
  then show ?thesis
    using findNode_less [of f g]
    by (simp add: insert_edge_present node_values_def map_update list_update_same_conv)
next
  case False
  then show ?thesis by (auto simp: insert_edge_absent)
qed

lemma length_insert_edge: "length (m_nodes (snd (insert_edge g f t w))) = length (m_nodes g)"
  using node_values_insert_edge [of g f t w] length_map [of m_data "m_nodes g"]
    length_map [of m_data "m_nodes (snd (insert_edge g f t w))"]
  unfolding node_values_def by presburger

lemma m_data_nth_cong:
  "node_values g' = node_values g \<Longrightarrow> i < length (m_nodes g) \<Longrightarrow>
     m_data (m_nodes g' ! i) = m_data (m_nodes g ! i)"
  by (metis length_map node_values_def nth_map)

lemma edges_in_range_insert_edge:
  assumes "edges_in_range g"
  shows "edges_in_range (snd (insert_edge g f t w))"
proof (cases "f \<in> set (node_values g) \<and> t \<in> set (node_values g)")
  case True
  then have i: "findNode g f < length (m_nodes g)" and j: "findNode g t < length (m_nodes g)"
    by (simp_all add: findNode_less)
  from i have m: "m_nodes g ! findNode g f \<in> set (m_nodes g)" by simp
  show ?thesis
    unfolding edges_in_range_def
  proof (intro ballI)
    fix node e
    assume n: "node \<in> set (m_nodes (snd (insert_edge g f t w)))"
      and e: "e \<in> m_adjacentNodeIndices node"
    from n True have "node \<in> insert ((m_nodes g ! findNode g f)
             \<lparr>m_adjacentNodeIndices :=
                insert (graph_edge (findNode g t) w)
                  (m_adjacentNodeIndices (m_nodes g ! findNode g f))\<rparr>) (set (m_nodes g))"
      using set_update_subset_insert by (fastforce simp: insert_edge_present)
    with e assms m j have "index e < length (m_nodes g)"
      by (auto simp: edges_in_range_def)
    then show "index e < length (m_nodes (snd (insert_edge g f t w)))"
      by (simp add: length_insert_edge)
  qed
next
  case False
  with assms show ?thesis by (auto simp: insert_edge_absent)
qed

lemma neighbour_values_insert_edge:
  assumes "edges_in_range g"
  shows "neighbour_values (snd (insert_edge g f t w)) v =
     (if v = f \<and> f \<in> set (node_values g) \<and> t \<in> set (node_values g)
      then insert t (neighbour_values g v) else neighbour_values g v)"
proof (cases "f \<in> set (node_values g) \<and> t \<in> set (node_values g)")
  case False
  then show ?thesis by (auto simp: insert_edge_absent)
next
  case True
  let ?g' = "snd (insert_edge g f t w)"
  have nv: "node_values ?g' = node_values g" by (rule node_values_insert_edge)
  from True have i: "findNode g f < length (m_nodes g)" and j: "findNode g t < length (m_nodes g)"
    by (simp_all add: findNode_less)
  show ?thesis
  proof (cases "v \<in> set (node_values g)")
    case False
    with True show ?thesis by (auto simp: neighbour_values_def nv)
  next
    case v: True
    then have k: "findNode g v < length (m_nodes g)" by (simp add: findNode_less)
    have fk: "findNode ?g' v = findNode g v" by (rule findNode_cong [OF nv])
    have "m_data (m_nodes g ! findNode g v) = v" "m_data (m_nodes g ! findNode g f) = f"
      using v True by (simp_all add: findNode_value findNode_end_iff)
    then have same: "(findNode g v = findNode g f) = (v = f)"
      by metis
    have adj: "m_adjacentNodeIndices (m_nodes ?g' ! findNode g v) =
      (if v = f then insert (graph_edge (findNode g t) w)
                       (m_adjacentNodeIndices (m_nodes g ! findNode g v))
       else m_adjacentNodeIndices (m_nodes g ! findNode g v))"
      using True i k same by (auto simp: insert_edge_present nth_list_update)
    have inr: "\<forall>e \<in> m_adjacentNodeIndices (m_nodes g ! findNode g v). index e < length (m_nodes g)"
      using assms k by (auto simp: edges_in_range_def)
    have img: "(\<lambda>e. m_data (m_nodes ?g' ! index e)) ` A = (\<lambda>e. m_data (m_nodes g ! index e)) ` A"
      if "\<forall>e \<in> A. index e < length (m_nodes g)" for A
      using that by (intro image_cong refl) (simp add: m_data_nth_cong [OF nv])
    have t: "m_data (m_nodes g ! findNode g t) = t"
      using True by (simp add: findNode_value findNode_end_iff)
    let ?A = "m_adjacentNodeIndices (m_nodes g ! findNode g v)"
    have old: "neighbour_values g v = (\<lambda>e. m_data (m_nodes g ! index e)) ` ?A"
      using v by (simp add: neighbour_values_def)
    have new: "neighbour_values ?g' v =
        (\<lambda>e. m_data (m_nodes ?g' ! index e)) ` m_adjacentNodeIndices (m_nodes ?g' ! findNode g v)"
      using v by (simp add: neighbour_values_def nv fk)
    show ?thesis
    proof (cases "v = f")
      case vf: True
      have "neighbour_values ?g' v =
          (\<lambda>e. m_data (m_nodes ?g' ! index e)) ` insert (graph_edge (findNode g t) w) ?A"
        unfolding new adj using vf by simp
      also have "\<dots> = (\<lambda>e. m_data (m_nodes g ! index e)) ` insert (graph_edge (findNode g t) w) ?A"
        using inr j by (intro img) simp
      also have "\<dots> = insert t (neighbour_values g v)"
        unfolding old using t by simp
      finally show ?thesis
        using vf True by simp
    next
      case vf: False
      have "neighbour_values ?g' v = (\<lambda>e. m_data (m_nodes ?g' ! index e)) ` ?A"
        unfolding new adj using vf by simp
      also have "\<dots> = neighbour_values g v"
        unfolding old by (rule img [OF inr])
      finally show ?thesis
        using vf by simp
    qed
  qed
qed

subsection \<open>Graphs built from nodes and edges\<close>

lemma node_values_insert_node:
  "node_values (snd (insert_node g v)) =
     (if v \<in> set (node_values g) then node_values g else node_values g @ [v])"
  by (simp add: insert_node_def Let_def findNode_end_iff node_values_def)

lemma unique_values_insert_node: "unique_values g \<Longrightarrow> unique_values (snd (insert_node g v))"
  by (simp add: unique_values_def node_values_insert_node)

lemma no_edges_insert_node:
  "\<forall>n \<in> set (m_nodes g). m_adjacentNodeIndices n = {} \<Longrightarrow>
     \<forall>n \<in> set (m_nodes (snd (insert_node g v))). m_adjacentNodeIndices n = {}"
  by (auto simp: insert_node_def Let_def)

lemma insert_range_Cons: "insert_range g (a # vs) = insert_range (snd (insert_node g a)) vs"
  by (simp add: insert_range_def)

lemma node_values_insert_range:
  "set (node_values (insert_range g vs)) = set (node_values g) \<union> set vs"
proof (induction vs arbitrary: g)
  case Nil
  show ?case by (simp add: insert_range_def)
next
  case (Cons a vs)
  show ?case
    unfolding insert_range_Cons Cons.IH by (auto simp: node_values_insert_node)
qed

lemma unique_values_insert_range: "unique_values g \<Longrightarrow> unique_values (insert_range g vs)"
proof (induction vs arbitrary: g)
  case Nil
  then show ?case by (simp add: insert_range_def)
next
  case (Cons a vs)
  show ?case
    unfolding insert_range_Cons by (intro Cons.IH unique_values_insert_node Cons.prems)
qed

lemma no_edges_insert_range:
  "\<forall>n \<in> set (m_nodes g). m_adjacentNodeIndices n = {} \<Longrightarrow>
     \<forall>n \<in> set (m_nodes (insert_range g vs)). m_adjacentNodeIndices n = {}"
proof (induction vs arbitrary: g)
  case Nil
  then show ?case by (simp add: insert_range_def)
next
  case (Cons a vs)
  show ?case
    unfolding insert_range_Cons by (intro Cons.IH no_edges_insert_node Cons.prems)
qed

lemma insert_edges_Cons:
  "insert_edges g ((f, t, w) # es) = insert_edges (snd (insert_edge g f t w)) es"
  by (simp add: insert_edges_def)

lemma node_values_insert_edges: "node_values (insert_edges g es) = node_values g"
proof (induction es arbitrary: g)
  case Nil
  show ?case by (simp add: insert_edges_def)
next
  case (Cons e es)
  obtain f t w where e: "e = (f, t, w)" by (cases e)
  show ?case
    unfolding e insert_edges_Cons Cons.IH by (rule node_values_insert_edge)
qed

lemma edges_in_range_insert_edges: "edges_in_range g \<Longrightarrow> edges_in_range (insert_edges g es)"
proof (induction es arbitrary: g)
  case Nil
  then show ?case by (simp add: insert_edges_def)
next
  case (Cons e es)
  obtain f t w where e: "e = (f, t, w)" by (cases e)
  show ?case
    unfolding e insert_edges_Cons
    by (intro Cons.IH edges_in_range_insert_edge Cons.prems)
qed

lemma neighbour_values_insert_edges:
  "edges_in_range g \<Longrightarrow>
     neighbour_values (insert_edges g es) v =
       neighbour_values g v \<union>
       {t. \<exists>w. (v, t, w) \<in> set es \<and> v \<in> set (node_values g) \<and> t \<in> set (node_values g)}"
proof (induction es arbitrary: g)
  case Nil
  show ?case by (simp add: insert_edges_def)
next
  case (Cons e es)
  obtain f t w where e: "e = (f, t, w)" by (cases e)
  have r: "edges_in_range (snd (insert_edge g f t w))"
    by (rule edges_in_range_insert_edge [OF Cons.prems])
  show ?case
    unfolding e insert_edges_Cons Cons.IH [OF r] node_values_insert_edge
      neighbour_values_insert_edge [OF Cons.prems]
    by auto
qed

lemma empty_graph_facts:
  "node_values (empty_graph :: 'a weighted_directed_graph) = []"
  "unique_values (empty_graph :: 'a weighted_directed_graph)"
  "\<forall>n \<in> set (m_nodes (empty_graph :: 'a weighted_directed_graph)). m_adjacentNodeIndices n = {}"
  by (simp_all add: empty_graph_def new_graph_def node_values_def unique_values_def)

lemma no_edges_in_range:
  "\<forall>n \<in> set (m_nodes g). m_adjacentNodeIndices n = {} \<Longrightarrow> edges_in_range g"
  by (simp add: edges_in_range_def)

lemma no_edges_neighbour_values:
  "\<forall>n \<in> set (m_nodes g). m_adjacentNodeIndices n = {} \<Longrightarrow> neighbour_values g v = {}"
  by (simp add: neighbour_values_def nth_findNode_mem)

lemma build_facts:
  "set (node_values (build vs es)) = set vs"
  "unique_values (build vs es)"
  "edges_in_range (build vs es)"
  "neighbour_values (build vs es) v =
     {t. \<exists>w. (v, t, w) \<in> set es \<and> v \<in> set vs \<and> t \<in> set vs}"
proof -
  let ?g0 = "insert_range (empty_graph :: 'a weighted_directed_graph) vs"
  have v0: "set (node_values ?g0) = set vs"
    by (simp add: node_values_insert_range empty_graph_facts)
  have u0: "unique_values ?g0"
    by (intro unique_values_insert_range empty_graph_facts)
  have n0: "\<forall>n \<in> set (m_nodes ?g0). m_adjacentNodeIndices n = {}"
    by (intro no_edges_insert_range empty_graph_facts)
  have r0: "edges_in_range ?g0"
    by (rule no_edges_in_range [OF n0])
  show "set (node_values (build vs es)) = set vs"
    by (simp add: build_def node_values_insert_edges v0)
  show "unique_values (build vs es)"
    using u0 by (simp add: build_def unique_values_def node_values_insert_edges)
  show "edges_in_range (build vs es)"
    unfolding build_def by (rule edges_in_range_insert_edges [OF r0])
  show "neighbour_values (build vs es) v =
     {t. \<exists>w. (v, t, w) \<in> set es \<and> v \<in> set vs \<and> t \<in> set vs}"
    unfolding build_def neighbour_values_insert_edges [OF r0] v0
    by (simp add: no_edges_neighbour_values [OF n0])
qed

lemma graph_eq_build:
  assumes "set vs = set vs'"
    and "\<And>v. {t. \<exists>w. (v, t, w) \<in> set es \<and> v \<in> set vs \<and> t \<in> set vs} =
              {t. \<exists>w. (v, t, w) \<in> set es' \<and> v \<in> set vs \<and> t \<in> set vs}"
  shows "graph_eq (build vs es) (build vs' es') = Inr True"
proof -
  have "get_adjacent_nodes_values (build vs es) v = get_adjacent_nodes_values (build vs' es') v" for v
    using assms(2) [of v]
    by (simp add: get_adjacent_nodes_values_in_range build_facts flip: assms(1))
  then show ?thesis
    by (simp add: graph_eq_char build_facts assms(1))
qed

lemma graph_eq_insert_edge_new:
  assumes u: "unique_values g" and r: "edges_in_range g"
    and f: "f \<in> set (node_values g)" and t: "t \<in> set (node_values g)"
    and S: "get_adjacent_nodes_values g f = Inr S" and n: "t \<notin> S"
  shows "graph_eq (snd (insert_edge g f t w)) g = Inr False"
    and "graph_eq g (snd (insert_edge g f t w)) = Inr False"
proof -
  let ?g' = "snd (insert_edge g f t w)"
  have u': "unique_values ?g'"
    using u by (simp add: unique_values_def node_values_insert_edge)
  have r': "edges_in_range ?g'"
    by (rule edges_in_range_insert_edge [OF r])
  from S have S': "neighbour_values g f = S"
    by (simp add: get_adjacent_nodes_values_in_range [OF r])
  have d: "get_adjacent_nodes_values ?g' f \<noteq> get_adjacent_nodes_values g f"
    using f t n S'
    by (auto simp: get_adjacent_nodes_values_in_range r r' neighbour_values_insert_edge [OF r])
  show "graph_eq ?g' g = Inr False"
    using d f by (auto simp: graph_eq_char [OF u' u r' r] node_values_insert_edge)
  from d have d': "get_adjacent_nodes_values g f \<noteq> get_adjacent_nodes_values ?g' f"
    by (rule not_sym)
  show "graph_eq g ?g' = Inr False"
    using d' f by (auto simp: graph_eq_char [OF u u' r r'] node_values_insert_edge)
qed

lemma graph_eq_insert_edge_parallel:
  assumes u: "unique_values g" and r: "edges_in_range g"
    and S: "get_adjacent_nodes_values g f = Inr S" and n: "t \<in> S"
  shows "graph_eq (snd (insert_edge g f t w)) g = Inr True"
    and "graph_eq g (snd (insert_edge g f t w)) = Inr True"
proof -
  let ?g' = "snd (insert_edge g f t w)"
  have u': "unique_values ?g'"
    using u by (simp add: unique_values_def node_values_insert_edge)
  have r': "edges_in_range ?g'"
    by (rule edges_in_range_insert_edge [OF r])
  from S have S': "neighbour_values g f = S"
    by (simp add: get_adjacent_nodes_values_in_range [OF r])
  have same: "get_adjacent_nodes_values ?g' v = get_adjacent_nodes_values g v" for v
    using n S'
    by (auto simp: get_adjacent_nodes_values_in_range r r' neighbour_values_insert_edge [OF r])
  show "graph_eq ?g' g = Inr True"
    by (simp add: graph_eq_char [OF u' u r' r] node_values_insert_edge same)
  show "graph_eq g ?g' = Inr True"
    by (simp add: graph_eq_char [OF u u' r r'] node_values_insert_edge same)
qed

subsection \<open>What equality sees of the edges\<close>

text \<open>
  C4, as the specification states it: a graph with an extra edge does not compare equal to
  the same graph without that edge. In the graph with nodes \<open>[1, 2]\<close> and the edge \<open>1 \<rightarrow> 2\<close>
  of weight 1, inserting the edge \<open>1 \<rightarrow> 2\<close> of weight 2 succeeds and changes the graph, and
  the two graphs compare equal.
\<close>

theorem graph_eq_extra_edge_counterexample:
  "fst (insert_edge (build [1, 2::nat] [(1, 2, 1)]) 1 2 2) = True \<and>
   snd (insert_edge (build [1, 2::nat] [(1, 2, 1)]) 1 2 2) \<noteq> build [1, 2] [(1, 2, 1)] \<and>
   graph_eq (snd (insert_edge (build [1, 2::nat] [(1, 2, 1)]) 1 2 2)) (build [1, 2] [(1, 2, 1)]) =
     Inr True"
  by code_simp

text \<open>
  C4, amended. For graphs with unique node values and all targets in range, \<open>operator==\<close>
  holds exactly when the two graphs have the same set of node values and every value has the
  same neighbour values in both. Two graphs built from the same nodes and the same edges,
  inserted in any order, compare equal. A graph with an extra edge to a value that was not
  yet a neighbour of the source does not compare equal to the graph without that edge; a
  graph with an extra edge to a value that was a neighbour of the source already, whatever
  the weight, compares equal to the graph without that edge.
\<close>

theorem graph_eq_values:
  "(\<forall>(g :: 'a weighted_directed_graph) rhs.
      unique_values g \<and> unique_values rhs \<and> edges_in_range g \<and> edges_in_range rhs \<longrightarrow>
      graph_eq g rhs =
        Inr (set (node_values g) = set (node_values rhs) \<and>
             (\<forall>v \<in> set (node_values g).
                get_adjacent_nodes_values g v = get_adjacent_nodes_values rhs v))) \<and>
   (\<forall>(vs :: 'a list) vs' es es'. set vs = set vs' \<and> set es = set es' \<longrightarrow>
      graph_eq (build vs es) (build vs' es') = Inr True) \<and>
   (\<forall>(g :: 'a weighted_directed_graph) f t w S.
      unique_values g \<and> edges_in_range g \<and>
      f \<in> set (node_values g) \<and> t \<in> set (node_values g) \<and>
      get_adjacent_nodes_values g f = Inr S \<and> t \<notin> S \<longrightarrow>
      graph_eq (snd (insert_edge g f t w)) g = Inr False \<and>
      graph_eq g (snd (insert_edge g f t w)) = Inr False) \<and>
   (\<forall>(g :: 'a weighted_directed_graph) f t w S.
      unique_values g \<and> edges_in_range g \<and>
      get_adjacent_nodes_values g f = Inr S \<and> t \<in> S \<longrightarrow>
      graph_eq (snd (insert_edge g f t w)) g = Inr True \<and>
      graph_eq g (snd (insert_edge g f t w)) = Inr True)"
proof (intro conjI allI impI)
  fix g rhs :: "'a weighted_directed_graph"
  assume "unique_values g \<and> unique_values rhs \<and> edges_in_range g \<and> edges_in_range rhs"
  then show "graph_eq g rhs =
        Inr (set (node_values g) = set (node_values rhs) \<and>
             (\<forall>v \<in> set (node_values g).
                get_adjacent_nodes_values g v = get_adjacent_nodes_values rhs v))"
    by (intro graph_eq_char) simp_all
next
  fix vs vs' :: "'a list" and es es' :: "('a \<times> 'a \<times> real) list"
  assume "set vs = set vs' \<and> set es = set es'"
  then show "graph_eq (build vs es) (build vs' es') = Inr True"
    by (intro graph_eq_build) simp_all
next
  fix g :: "'a weighted_directed_graph" and f t w S
  assume a: "unique_values g \<and> edges_in_range g \<and>
      f \<in> set (node_values g) \<and> t \<in> set (node_values g) \<and>
      get_adjacent_nodes_values g f = Inr S \<and> t \<notin> S"
  then show "graph_eq (snd (insert_edge g f t w)) g = Inr False"
    by (intro graph_eq_insert_edge_new(1) [where S = S]) simp_all
  from a show "graph_eq g (snd (insert_edge g f t w)) = Inr False"
    by (intro graph_eq_insert_edge_new(2) [where S = S]) simp_all
next
  fix g :: "'a weighted_directed_graph" and f t w S
  assume a: "unique_values g \<and> edges_in_range g \<and>
      get_adjacent_nodes_values g f = Inr S \<and> t \<in> S"
  then show "graph_eq (snd (insert_edge g f t w)) g = Inr True"
    by (intro graph_eq_insert_edge_parallel(1) [where S = S]) simp_all
  from a show "graph_eq g (snd (insert_edge g f t w)) = Inr True"
    by (intro graph_eq_insert_edge_parallel(2) [where S = S]) simp_all
qed

theorem graph_eq_values_witness:
  "graph_eq (build [1, 2::nat] [(1, 2, 1), (2, 1, 3)]) (build [2, 1] [(2, 1, 3), (1, 2, 1)]) = Inr True \<and>
   unique_values (build [1, 2::nat] [(1, 2, 1)]) \<and> edges_in_range (build [1, 2::nat] [(1, 2, 1)]) \<and>
   get_adjacent_nodes_values (build [1, 2::nat] [(1, 2, 1)]) 2 = Inr {} \<and>
   graph_eq (snd (insert_edge (build [1, 2::nat] [(1, 2, 1)]) 2 1 7)) (build [1, 2] [(1, 2, 1)]) =
     Inr False \<and>
   get_adjacent_nodes_values (build [1, 2::nat] [(1, 2, 1)]) 1 = Inr {2} \<and>
   fst (insert_edge (build [1, 2::nat] [(1, 2, 1)]) 1 2 2) = True \<and>
   graph_eq (snd (insert_edge (build [1, 2::nat] [(1, 2, 1)]) 1 2 2)) (build [1, 2] [(1, 2, 1)]) =
     Inr True"
proof -
  let ?g = "build [1, 2::nat] [(1, 2, 1)]"
  have o: "set [1, 2::nat] = set [2, 1] \<and>
           set [(1::nat, 2::nat, 1::real), (2, 1, 3)] = set [(2, 1, 3), (1, 2, 1)]"
    by auto
  have h: "unique_values ?g \<and> edges_in_range ?g \<and>
      2 \<in> set (node_values ?g) \<and> 1 \<in> set (node_values ?g) \<and>
      get_adjacent_nodes_values ?g 2 = Inr {} \<and> 1 \<notin> ({} :: nat set)"
    by code_simp
  from graph_eq_values [where 'a = nat] o have
    a: "graph_eq (build [1, 2::nat] [(1, 2, 1), (2, 1, 3)]) (build [2, 1] [(2, 1, 3), (1, 2, 1)]) = Inr True"
    by blast
  from graph_eq_values [where 'a = nat] h have
    b: "graph_eq (snd (insert_edge ?g 2 1 7)) ?g = Inr False"
    by blast
  have k: "unique_values ?g \<and> edges_in_range ?g \<and>
      get_adjacent_nodes_values ?g 1 = Inr {2} \<and> 2 \<in> ({2} :: nat set)"
    by code_simp
  have i: "fst (insert_edge ?g 1 2 2) = True"
    by code_simp
  from graph_eq_values [where 'a = nat] k have
    c: "graph_eq (snd (insert_edge ?g 1 2 2)) ?g = Inr True"
    by blast
  from a b c h k i show ?thesis by blast
qed

text \<open>
  C10. Two graphs (with unique node values and all targets in range) that have the same set
  of node values and, for every value, the same neighbour values compare equal; the weights
  play no part: graphs built from the same nodes and from edge lists that agree up to the
  weights compare equal.
\<close>

theorem graph_eq_ignores_weights:
  "(\<forall>(g :: 'a weighted_directed_graph) rhs.
      unique_values g \<and> unique_values rhs \<and> edges_in_range g \<and> edges_in_range rhs \<and>
      set (node_values g) = set (node_values rhs) \<and>
      (\<forall>v \<in> set (node_values g).
         get_adjacent_nodes_values g v = get_adjacent_nodes_values rhs v) \<longrightarrow>
      graph_eq g rhs = Inr True) \<and>
   (\<forall>(vs :: 'a list) es es'.
      (\<lambda>(f, t, w). (f, t)) ` set es = (\<lambda>(f, t, w). (f, t)) ` set es' \<longrightarrow>
      graph_eq (build vs es) (build vs es') = Inr True)"
proof (intro conjI allI impI)
  fix g rhs :: "'a weighted_directed_graph"
  assume a: "unique_values g \<and> unique_values rhs \<and> edges_in_range g \<and> edges_in_range rhs \<and>
      set (node_values g) = set (node_values rhs) \<and>
      (\<forall>v \<in> set (node_values g).
         get_adjacent_nodes_values g v = get_adjacent_nodes_values rhs v)"
  then have "graph_eq g rhs =
        Inr (set (node_values g) = set (node_values rhs) \<and>
             (\<forall>v \<in> set (node_values g).
                get_adjacent_nodes_values g v = get_adjacent_nodes_values rhs v))"
    by (intro graph_eq_char) simp_all
  with a show "graph_eq g rhs = Inr True" by simp
next
  fix vs :: "'a list" and es es' :: "('a \<times> 'a \<times> real) list"
  assume p: "(\<lambda>(f, t, w). (f, t)) ` set es = (\<lambda>(f, t, w). (f, t)) ` set es'"
  have "(\<exists>w. (v, t, w) \<in> set es) \<longleftrightarrow> (\<exists>w. (v, t, w) \<in> set es')" for v t
  proof -
    have "(\<exists>w. (v, t, w) \<in> set xs) \<longleftrightarrow> (v, t) \<in> (\<lambda>(f, t, w). (f, t)) ` set xs"
      for xs :: "('a \<times> 'a \<times> real) list"
      by force
    with p show ?thesis by simp
  qed
  then have "{t. \<exists>w. (v, t, w) \<in> set es \<and> v \<in> set vs \<and> t \<in> set vs} =
             {t. \<exists>w. (v, t, w) \<in> set es' \<and> v \<in> set vs \<and> t \<in> set vs}" for v
    by auto
  then show "graph_eq (build vs es) (build vs es') = Inr True"
    by (intro graph_eq_build) simp_all
qed

theorem graph_eq_ignores_weights_witness:
  "build [1, 2::nat] [(1, 2, 1)] \<noteq> build [1, 2] [(1, 2, 5)] \<and>
   graph_eq (build [1, 2::nat] [(1, 2, 1)]) (build [1, 2] [(1, 2, 5)]) = Inr True"
proof -
  have d: "build [1, 2::nat] [(1, 2, 1)] \<noteq> build [1, 2] [(1, 2, 5)]"
    by code_simp
  have p: "(\<lambda>(f, t, w). (f, t)) ` set [(1::nat, 2::nat, 1::real)] =
           (\<lambda>(f, t, w). (f, t)) ` set [(1, 2, 5)]"
    by simp
  from graph_eq_ignores_weights [where 'a = nat] p have
    "graph_eq (build [1, 2::nat] [(1, 2, 1)]) (build [1, 2] [(1, 2, 5)]) = Inr True"
    by blast
  with d show ?thesis by blast
qed

section \<open>Targets stay in range under the operations other than the range erase\<close>

text \<open>Every public operation except the range overload of \<open>erase\<close> keeps all edge targets
  below the number of nodes, where it returns a graph.\<close>

lemma relink_in_range:
  assumes "\<forall>e \<in> A. index e < n" and "i < n" and "e' \<in> relink i A"
  shows "index e' < n - 1"
proof -
  from assms(3) obtain e where e: "e \<in> A" "index e \<noteq> i"
    "e' = graph_edge (if i < index e then index e - 1 else index e) (weight e)"
    by (auto simp: relink_iff)
  from assms(1) e(1) have "index e < n" by blast
  with e(2,3) assms(2) show ?thesis by (cases "i < index e") auto
qed

lemma edges_in_range_erase_at:
  assumes r: "edges_in_range g" and i: "i < length (m_nodes g)"
    and e: "vector_erase (m_nodes (remove_all_links_to g i)) i = Inr nodes"
  shows "edges_in_range ((remove_all_links_to g i)\<lparr>m_nodes := nodes\<rparr>)"
proof -
  let ?xs = "m_nodes (remove_all_links_to g i)"
  from e have nodes: "nodes = take i ?xs @ drop (Suc i) ?xs"
    by (simp add: vector_erase_def vector_erase_range_def split: if_splits)
  have len: "length nodes = length (m_nodes g) - 1"
    using i by (simp add: nodes remove_all_links_to_length)
  have sub: "set nodes \<subseteq> set ?xs"
    by (auto simp: nodes dest: in_set_takeD in_set_dropD)
  have "index e' < length (m_nodes g) - 1"
    if n: "node \<in> set nodes" and e': "e' \<in> m_adjacentNodeIndices node" for node e'
  proof -
    from n sub have "node \<in> set ?xs" by blast
    then obtain old where old: "old \<in> set (m_nodes g)"
      "node = old\<lparr>m_adjacentNodeIndices := relink i (m_adjacentNodeIndices old)\<rparr>"
      by (auto simp: remove_all_links_to_def)
    from r old(1) have "\<forall>e \<in> m_adjacentNodeIndices old. index e < length (m_nodes g)"
      by (simp add: edges_in_range_def)
    from relink_in_range [OF this i] e' old(2) show ?thesis by simp
  qed
  then show ?thesis
    by (simp add: edges_in_range_def len)
qed

lemma edges_in_range_insert_node: "edges_in_range g \<Longrightarrow> edges_in_range (snd (insert_node g v))"
  by (fastforce simp: insert_node_def Let_def edges_in_range_def)

lemma edges_in_range_insert_range: "edges_in_range g \<Longrightarrow> edges_in_range (insert_range g vs)"
proof (induction vs arbitrary: g)
  case Nil
  then show ?case by (simp add: insert_range_def)
next
  case (Cons a vs)
  show ?case
    unfolding insert_range_Cons by (intro Cons.IH edges_in_range_insert_node Cons.prems)
qed

lemma edges_in_range_erase_value:
  assumes "edges_in_range g" and "erase_value g v = Inr (b, g')"
  shows "edges_in_range g'"
proof (cases "v \<in> set (node_values g)")
  case True
  from True have i: "findNode g v < length (m_nodes g)" by (rule findNode_less)
  from assms(2) True obtain nodes where
    n: "vector_erase (m_nodes (remove_all_links_to g (findNode g v))) (findNode g v) = Inr nodes"
    and g': "g' = (remove_all_links_to g (findNode g v))\<lparr>m_nodes := nodes\<rparr>"
    by (auto simp: erase_value_def Let_def findNode_end_iff split: sum.splits)
  from edges_in_range_erase_at [OF assms(1) i n] g' show ?thesis by simp
next
  case False
  with assms show ?thesis by (simp add: erase_value_def Let_def findNode_end_iff)
qed

lemma edges_in_range_erase_pos:
  assumes "edges_in_range g" and "pos \<le> end_iter g" and "erase_pos g pos = Inr (it, g')"
  shows "edges_in_range g'"
proof (cases "pos = end_iter g")
  case True
  with assms show ?thesis by (simp add: erase_pos_def)
next
  case False
  with assms(2) have i: "pos < length (m_nodes g)" by (simp add: end_iter_def)
  from assms(3) False obtain nodes where
    n: "vector_erase (m_nodes (remove_all_links_to g pos)) pos = Inr nodes"
    and g': "g' = (remove_all_links_to g pos)\<lparr>m_nodes := nodes\<rparr>"
    by (auto simp: erase_pos_def Let_def split: sum.splits)
  from edges_in_range_erase_at [OF assms(1) i n] g' show ?thesis by simp
qed

lemma edges_in_range_erase_edge: "edges_in_range g \<Longrightarrow> edges_in_range (snd (erase_edge g f t))"
proof -
  assume r: "edges_in_range g"
  show ?thesis
  proof (cases "f \<in> set (node_values g) \<and> t \<in> set (node_values g)")
    case False
    with r show ?thesis by (auto simp: erase_edge_def Let_def findNode_end_iff)
  next
    case True
    then have i: "findNode g f < length (m_nodes g)" by (simp add: findNode_less)
    then have m: "m_nodes g ! findNode g f \<in> set (m_nodes g)" by simp
    have "index e < length (m_nodes g)"
      if n: "node \<in> set ((m_nodes g)[findNode g f := (m_nodes g ! findNode g f)
              \<lparr>m_adjacentNodeIndices :=
                 Set.filter (\<lambda>e. \<not> index e = findNode g t)
                   (m_adjacentNodeIndices (m_nodes g ! findNode g f))\<rparr>])"
        and e: "e \<in> m_adjacentNodeIndices node" for node e
    proof -
      from n have "node \<in> insert ((m_nodes g ! findNode g f)
              \<lparr>m_adjacentNodeIndices :=
                 Set.filter (\<lambda>e. \<not> index e = findNode g t)
                   (m_adjacentNodeIndices (m_nodes g ! findNode g f))\<rparr>) (set (m_nodes g))"
        using set_update_subset_insert by fastforce
      with e r m show ?thesis by (auto simp: edges_in_range_def)
    qed
    with True show ?thesis
      by (simp add: erase_edge_def Let_def findNode_end_iff edges_in_range_def)
  qed
qed

lemma edges_in_range_clear: "edges_in_range (clear g)"
  by (simp add: clear_def edges_in_range_def)

lemma edges_in_range_empty_graph: "edges_in_range empty_graph"
  by (simp add: empty_graph_def new_graph_def edges_in_range_def)

lemma edges_in_range_swap_graph:
  "edges_in_range g \<Longrightarrow> edges_in_range h \<Longrightarrow>
     edges_in_range (fst (swap_graph g h)) \<and> edges_in_range (snd (swap_graph g h))"
  by (simp add: swap_graph_def edges_in_range_def)

end
